theory Spec2Isabelle
  imports Main
begin

section \<open>Python strings\<close>

text \<open>
  A Python \<open>str\<close> is a sequence of code points. The model is \<open>string\<close>, a list of
  \<open>char\<close>, read as the code points below 256. The character classes below are the ones
  CPython uses on that range: \<open>str.strip\<close> and the regular expression class \<open>\s\<close> both
  test \<open>str.isspace\<close>, \<open>\d\<close> and \<open>int\<close> accept the decimal digits, and \<open>str.splitlines\<close>
  has its own list of line boundaries. Integers are Python's unbounded \<open>int\<close>, modelled as
  \<open>int\<close>; the interpreter's configurable limit on the length of a decimal conversion is
  not modelled.
\<close>

datatype py_error = ValueError

definition LF :: char where
  "LF = CHR 0x0A"

definition CR :: char where
  "CR = CHR 0x0D"

definition isspace :: "char \<Rightarrow> bool" where
  "isspace c = (c \<in> set [CHR 0x09, CHR 0x0A, CHR 0x0B, CHR 0x0C, CHR 0x0D,
                          CHR 0x1C, CHR 0x1D, CHR 0x1E, CHR 0x1F, CHR 0x20,
                          CHR 0x85, CHR 0xA0])"

definition is_linebreak :: "char \<Rightarrow> bool" where
  "is_linebreak c = (c \<in> set [CHR 0x0A, CHR 0x0B, CHR 0x0C, CHR 0x0D,
                               CHR 0x1C, CHR 0x1D, CHR 0x1E, CHR 0x85])"

definition isdigit :: "char \<Rightarrow> bool" where
  "isdigit c = (48 \<le> (of_char c :: nat) \<and> (of_char c :: nat) \<le> 57)"

definition digit_val :: "char \<Rightarrow> nat" where
  "digit_val c = of_char c - 48"

definition digit_char :: "nat \<Rightarrow> char" where
  "digit_char d = char_of (48 + d)"

text \<open>\<open>s.strip()\<close>: leading and trailing whitespace removed.\<close>

definition strip :: "string \<Rightarrow> string" where
  "strip s = rev (dropWhile isspace (rev (dropWhile isspace s)))"

text \<open>\<open>s.split(c)\<close> for a one-character separator: never empty, \<open>''''.split(c) = ['''']\<close>.\<close>

fun split_on :: "char \<Rightarrow> string \<Rightarrow> string list" where
  "split_on c [] = [[]]"
| "split_on c (x # xs) =
     (if x = c then [] # split_on c xs
      else (case split_on c xs of
              [] \<Rightarrow> [[x]]
            | y # ys \<Rightarrow> (x # y) # ys))"

text \<open>
  \<open>s.splitlines()\<close>: the lines without their boundaries; \<open>\r\n\<close> is one boundary, and a
  boundary at the very end opens no further line. The first argument is the line read so
  far.
\<close>

fun splitlines_from :: "string \<Rightarrow> string \<Rightarrow> string list" where
  "splitlines_from cur [] = (if cur = [] then [] else [cur])"
| "splitlines_from cur [c] =
     (if is_linebreak c then [cur] else [cur @ [c]])"
| "splitlines_from cur (c # d # cs) =
     (if c = CR \<and> d = LF then cur # splitlines_from [] cs
      else if is_linebreak c then cur # splitlines_from [] (d # cs)
      else splitlines_from (cur @ [c]) (d # cs))"

definition splitlines :: "string \<Rightarrow> string list" where
  "splitlines s = splitlines_from [] s"

text \<open>\<open>sep.join(xs)\<close>.\<close>

fun join :: "string \<Rightarrow> string list \<Rightarrow> string" where
  "join sep [] = []"
| "join sep [x] = x"
| "join sep (x # y # ys) = x @ sep @ join sep (y # ys)"

subsection \<open>Integers and text\<close>

text \<open>
  \<open>int(s)\<close> in base 10: surrounding whitespace is skipped, one sign is allowed, and the
  digits may be grouped by single underscores; anything else raises \<open>ValueError\<close>.
\<close>

fun digits_ok :: "string \<Rightarrow> bool" where
  "digits_ok [] = False"
| "digits_ok [c] = isdigit c"
| "digits_ok (c # d # r) =
     (isdigit c \<and> (if d = CHR ''_'' then digits_ok r else digits_ok (d # r)))"

definition dec_value :: "string \<Rightarrow> nat" where
  "dec_value ds = foldl (\<lambda>a c. 10 * a + digit_val c) 0 ds"

definition py_int :: "string \<Rightarrow> py_error + int" where
  "py_int s =
     (let t = strip s;
          neg = (t \<noteq> [] \<and> hd t = CHR ''-'');
          u = (if t \<noteq> [] \<and> (hd t = CHR ''-'' \<or> hd t = CHR ''+'') then tl t else t)
      in if digits_ok u
         then (let v = int (dec_value (filter (\<lambda>c. c \<noteq> CHR ''_'') u))
               in Inr (if neg then - v else v))
         else Inl ValueError)"

text \<open>\<open>str(n)\<close> for a natural number, and the format specification \<open>02\<close> on an \<open>int\<close>:
  zero padding to width two, the sign counted in the width.\<close>

fun str_nat :: "nat \<Rightarrow> string" where
  "str_nat n = (if n < 10 then [digit_char n] else str_nat (n div 10) @ [digit_char (n mod 10)])"

declare str_nat.simps [simp del]

definition format_02 :: "int \<Rightarrow> string" where
  "format_02 i =
     (if i < 0 then CHR ''-'' # str_nat (nat (- i))
      else (let ds = str_nat (nat i) in if length ds < 2 then CHR ''0'' # ds else ds))"

section \<open>The timestamp codec\<close>

text \<open>
  \<open>timestamp_to_seconds\<close>: the body of the \<open>try\<close> block, with the \<open>ValueError\<close> of \<open>int\<close> as
  \<open>Inl\<close>; a field count other than two or three falls off the end of the function, which
  returns \<open>None\<close>. \<open>list(map(int, ...))\<close> converts every field before the count is looked at.
\<close>

fun map_int :: "string list \<Rightarrow> py_error + int list" where
  "map_int [] = Inr []"
| "map_int (f # fs) =
     (case py_int f of
        Inl e \<Rightarrow> Inl e
      | Inr v \<Rightarrow> (case map_int fs of Inl e \<Rightarrow> Inl e | Inr vs \<Rightarrow> Inr (v # vs)))"

definition timestamp_to_seconds_try :: "string \<Rightarrow> py_error + int option" where
  "timestamp_to_seconds_try ts_str =
     (let ts_str' = hd (split_on (CHR ''.'') ts_str)
      in case map_int (split_on (CHR '':'') ts_str') of
           Inl e \<Rightarrow> Inl e
         | Inr parts \<Rightarrow>
             (case parts of
                [h, m, s] \<Rightarrow> Inr (Some (h * 3600 + m * 60 + s))
              | [m, s] \<Rightarrow> Inr (Some (m * 60 + s))
              | _ \<Rightarrow> Inr None))"

text \<open>\<open>except Exception: return None\<close>.\<close>

definition timestamp_to_seconds :: "string \<Rightarrow> int option" where
  "timestamp_to_seconds ts_str =
     (case timestamp_to_seconds_try ts_str of
        Inl e \<Rightarrow> None
      | Inr r \<Rightarrow> r)"

definition seconds_to_timestamp :: "int option \<Rightarrow> string" where
  "seconds_to_timestamp total_seconds =
     (let total = (case total_seconds of
                     None \<Rightarrow> 0
                   | Some n \<Rightarrow> if n < 0 then 0 else n);
          hours = total div 3600;
          remainder = total mod 3600;
          minutes = remainder div 60;
          seconds = remainder mod 60
      in format_02 hours @ '':'' @ format_02 minutes @ '':'' @ format_02 seconds)"

section \<open>The caption pattern\<close>

text \<open>
  \<open>line_regex\<close> is
  \<^verbatim>\<open>^\[((?:\d{2}:)?\d{2}:\d{2}(?:\.\d+)?)\]\s*([^:]+?):\s*(.*)$\<close>
  matched from the start of the line. Each function below is one piece of the pattern; it
  returns what the piece consumed and the rest of the line, or \<open>None\<close> when it cannot
  match.
\<close>

text \<open>\<open>\d{2}\<close>\<close>

fun d2 :: "string \<Rightarrow> (string \<times> string) option" where
  "d2 (a # b # r) = (if isdigit a \<and> isdigit b then Some ([a, b], r) else None)"
| "d2 _ = None"

text \<open>one literal character\<close>

fun lit :: "char \<Rightarrow> string \<Rightarrow> string option" where
  "lit c [] = None"
| "lit c (x # r) = (if x = c then Some r else None)"

text \<open>\<open>\d{2}:\<close>\<close>

definition d2_colon :: "string \<Rightarrow> (string \<times> string) option" where
  "d2_colon s =
     (case d2 s of
        None \<Rightarrow> None
      | Some (a, r) \<Rightarrow>
          (case lit (CHR '':'') r of
             None \<Rightarrow> None
           | Some r' \<Rightarrow> Some (a @ '':'', r')))"

text \<open>
  \<open>(?:\.\d+)?\<close>, greedy: a dot and all the digits after it when there is at least one,
  nothing otherwise. The pattern goes on with \<open>\]\<close>, which matches neither a digit nor the
  dot, so giving digits back or skipping a fraction that is there cannot lead to a match.
\<close>

definition frac_opt :: "string \<Rightarrow> string \<times> string" where
  "frac_opt s =
     (case s of
        [] \<Rightarrow> ([], s)
      | c # r \<Rightarrow>
          if c = CHR ''.'' \<and> takeWhile isdigit r \<noteq> []
          then (c # takeWhile isdigit r, dropWhile isdigit r)
          else ([], s))"

text \<open>\<open>\d{2}:\d{2}(?:\.\d+)?\]\<close>, returning the text before the bracket.\<close>

definition ts_tail :: "string \<Rightarrow> (string \<times> string) option" where
  "ts_tail s =
     (case d2_colon s of
        None \<Rightarrow> None
      | Some (m, r1) \<Rightarrow>
          (case d2 r1 of
             None \<Rightarrow> None
           | Some (x, r2) \<Rightarrow>
               (case frac_opt r2 of
                  (f, r3) \<Rightarrow>
                    (case lit (CHR '']'') r3 of
                       None \<Rightarrow> None
                     | Some r4 \<Rightarrow> Some (m @ x @ f, r4)))))"

text \<open>
  Group 1 and the closing bracket. The optional hours are tried first; the pattern without
  them is tried when that fails. (When the hours branch reaches the bracket, the text
  starts with two digits, a colon, two digits and a colon, on which the other branch
  fails, so a failure later in the line cannot be repaired here.)
\<close>

definition ts_group :: "string \<Rightarrow> (string \<times> string) option" where
  "ts_group s =
     (case (case d2_colon s of
              None \<Rightarrow> None
            | Some (h, r) \<Rightarrow>
                (case ts_tail r of
                   None \<Rightarrow> None
                 | Some (t, r') \<Rightarrow> Some (h @ t, r'))) of
        Some res \<Rightarrow> Some res
      | None \<Rightarrow> ts_tail s)"

text \<open>
  \<open>\s*([^:]+?):\<close>. The greedy \<open>\s*\<close> takes all the whitespace, the lazy group then runs to
  the first colon. When the colon follows the whitespace directly the group has nothing to
  match, and \<open>\s*\<close> gives back its last character, which becomes the group.
\<close>

definition speaker_group :: "string \<Rightarrow> (string \<times> string) option" where
  "speaker_group r =
     (let ws = takeWhile isspace r;
          a = dropWhile isspace r;
          name = takeWhile (\<lambda>c. c \<noteq> CHR '':'') a
      in case dropWhile (\<lambda>c. c \<noteq> CHR '':'') a of
           [] \<Rightarrow> None
         | _ # rest \<Rightarrow>
             if name \<noteq> [] then Some (name, rest)
             else if ws \<noteq> [] then Some ([last ws], rest)
             else None)"

text \<open>
  \<open>\s*(.*)$\<close>. The dot matches everything but a line feed, and \<open>$\<close> matches at the end of
  the text or before a line feed that ends it.
\<close>

definition text_group :: "string \<Rightarrow> string option" where
  "text_group r =
     (let t = dropWhile isspace r;
          b = dropWhile (\<lambda>c. c \<noteq> LF) t
      in if b = [] \<or> b = [LF] then Some (takeWhile (\<lambda>c. c \<noteq> LF) t) else None)"

text \<open>\<open>line_regex.match(line)\<close> and \<open>match.groups()\<close>.\<close>

definition line_regex :: "string \<Rightarrow> (string \<times> string \<times> string) option" where
  "line_regex line =
     (case lit (CHR ''['') line of
        None \<Rightarrow> None
      | Some r0 \<Rightarrow>
          (case ts_group r0 of
             None \<Rightarrow> None
           | Some (ts_str, r1) \<Rightarrow>
               (case speaker_group r1 of
                  None \<Rightarrow> None
                | Some (speaker, r2) \<Rightarrow>
                    (case text_group r2 of
                       None \<Rightarrow> None
                     | Some text \<Rightarrow> Some (ts_str, speaker, text)))))"

section \<open>The segment merger\<close>

text \<open>
  The local variables of \<open>process_transcript\<close>, and the warnings it logs (line number and
  line).
\<close>

record state =
  output_lines :: "string list"
  current_segment_start_ts_str :: "string option"
  current_segment_start_seconds :: "int option"
  current_speaker :: "string option"
  current_text_parts :: "string list"
  warnings :: "(nat \<times> string) list"

definition init_state :: state where
  "init_state =
     \<lparr>output_lines = [], current_segment_start_ts_str = None,
      current_segment_start_seconds = None, current_speaker = None,
      current_text_parts = [], warnings = []\<rparr>"

text \<open>An optional string inside an f-string.\<close>

definition fmt_opt :: "string option \<Rightarrow> string" where
  "fmt_opt x = (case x of None \<Rightarrow> ''None'' | Some s \<Rightarrow> s)"

text \<open>The line written for the open segment:
  \<open>' '.join(filter(None, current_text_parts))\<close> inside the f-string.\<close>

definition segment_line :: "state \<Rightarrow> string" where
  "segment_line st =
     ''['' @ fmt_opt (current_segment_start_ts_str st) @ ''] '' @
     fmt_opt (current_speaker st) @ '': '' @
     join '' '' (filter (\<lambda>p. p \<noteq> []) (current_text_parts st))"

text \<open>The body of the loop, for line \<open>i\<close> of \<open>enumerate(lines)\<close>.\<close>

definition loop_body :: "int \<Rightarrow> nat \<Rightarrow> string \<Rightarrow> state \<Rightarrow> state" where
  "loop_body max_segment_duration i raw st =
     (let line = strip raw in
      if line = [] then st
      else
        (case line_regex line of
           None \<Rightarrow>
             (let st1 =
                (if current_speaker st \<noteq> None
                 then st\<lparr>output_lines := output_lines st @ [segment_line st],
                         current_speaker := None,
                         current_text_parts := [],
                         current_segment_start_ts_str := None,
                         current_segment_start_seconds := None\<rparr>
                 else st)
              in st1\<lparr>output_lines := output_lines st1 @ [line]\<rparr>)
         | Some (ts_str, speaker0, text0) \<Rightarrow>
             (let speaker = strip speaker0;
                  text = strip text0
              in case timestamp_to_seconds ts_str of
                   None \<Rightarrow> st\<lparr>warnings := warnings st @ [(i + 1, line)]\<rparr>
                 | Some current_seconds \<Rightarrow>
                     (let start_new_segment =
                        (if current_speaker st = None then True
                         else if Some speaker \<noteq> current_speaker st then True
                         else (case current_segment_start_seconds st of
                                 None \<Rightarrow> False
                               | Some s0 \<Rightarrow> current_seconds - s0 > max_segment_duration))
                      in if start_new_segment
                         then
                           (let st1 =
                              (if current_speaker st \<noteq> None
                               then st\<lparr>output_lines := output_lines st @ [segment_line st]\<rparr>
                               else st)
                            in st1\<lparr>current_segment_start_ts_str :=
                                      Some (seconds_to_timestamp (Some current_seconds)),
                                    current_segment_start_seconds := Some current_seconds,
                                    current_speaker := Some speaker,
                                    current_text_parts := [text]\<rparr>)
                         else
                           (if text \<noteq> []
                            then st\<lparr>current_text_parts := current_text_parts st @ [text]\<rparr>
                            else st)))))"

text \<open>The loop over \<open>enumerate(lines)\<close>, from index \<open>i\<close>.\<close>

fun process_lines :: "int \<Rightarrow> nat \<Rightarrow> string list \<Rightarrow> state \<Rightarrow> state" where
  "process_lines max_segment_duration i [] st = st"
| "process_lines max_segment_duration i (raw # rest) st =
     process_lines max_segment_duration (Suc i) rest
       (loop_body max_segment_duration i raw st)"

text \<open>
  After the loop the open segment, if there is one, is written; \<open>process_transcript\<close>
  joins the lines of \<open>lines = input_text.strip().splitlines()\<close> so obtained with line
  feeds.
\<close>

definition final_lines :: "int \<Rightarrow> string list \<Rightarrow> string list" where
  "final_lines max_segment_duration lines =
     (let st = process_lines max_segment_duration 0 lines init_state
      in if current_speaker st \<noteq> None
         then output_lines st @ [segment_line st]
         else output_lines st)"

definition process_transcript :: "string \<Rightarrow> int \<Rightarrow> string" where
  "process_transcript input_text max_segment_duration =
     join [LF] (final_lines max_segment_duration (splitlines (strip input_text)))"

text \<open>The call with \<open>max_segment_duration\<close> left at its default.\<close>

definition process_transcript_default :: "string \<Rightarrow> string" where
  "process_transcript_default input_text = process_transcript input_text 30"


section \<open>Vocabulary of the properties\<close>

text \<open>
  The colon-separated fields \<open>timestamp_to_seconds\<close> converts: those of the text before the
  first dot.
\<close>

definition ts_fields :: "string \<Rightarrow> string list" where
  "ts_fields s = split_on (CHR '':'') (takeWhile (\<lambda>c. c \<noteq> CHR ''.'') s)"

text \<open>The number of seconds \<open>seconds_to_timestamp\<close> renders: zero for \<open>None\<close> and for a
  negative number.\<close>

definition clamp_seconds :: "int option \<Rightarrow> int" where
  "clamp_seconds x = (case x of None \<Rightarrow> 0 | Some n \<Rightarrow> if n < 0 then 0 else n)"

text \<open>
  The shape of a timestamp of two-digit fields: two or three colon-separated fields of two
  digits each before the first dot, and after the dot, if there is one, digits only and at
  least one.
\<close>

definition two_digit_fields :: "string \<Rightarrow> bool" where
  "two_digit_fields ts =
     ((length (ts_fields ts) = 2 \<or> length (ts_fields ts) = 3) \<and>
      list_all (\<lambda>f. length f = 2 \<and> list_all isdigit f) (ts_fields ts) \<and>
      (case dropWhile (\<lambda>c. c \<noteq> CHR ''.'') ts of
         [] \<Rightarrow> True
       | _ # ds \<Rightarrow> ds \<noteq> [] \<and> list_all isdigit ds))"

text \<open>
  What the loop body does with a line, in the words of the specification: a blank line is
  skipped, a line that does not match the pattern is passed through, a line that matches
  is a caption with its seconds, speaker and text, unless its timestamp does not parse, in
  which case it is dropped with a warning.
\<close>

datatype classified =
  Blank
  | Passthrough string
  | Caption int string string
  | Dropped

definition classify :: "string \<Rightarrow> classified" where
  "classify raw =
     (let line = strip raw in
      if line = [] then Blank
      else
        (case line_regex line of
           None \<Rightarrow> Passthrough line
         | Some (ts_str, speaker, text) \<Rightarrow>
             (case timestamp_to_seconds ts_str of
                None \<Rightarrow> Dropped
              | Some n \<Rightarrow> Caption n (strip speaker) (strip text))))"

text \<open>Whether a line is a caption of the given speaker at most \<open>d\<close> seconds after \<open>n0\<close>,
  and the text of a caption.\<close>

definition caption_within :: "string \<Rightarrow> int \<Rightarrow> int \<Rightarrow> string \<Rightarrow> bool" where
  "caption_within sp n0 d raw =
     (case classify raw of
        Caption n s t \<Rightarrow> s = sp \<and> n - n0 \<le> d
      | _ \<Rightarrow> False)"

definition caption_text :: "string \<Rightarrow> string" where
  "caption_text raw = (case classify raw of Caption n s t \<Rightarrow> t | _ \<Rightarrow> [])"

text \<open>The output of a state once its open segment, if any, is written.\<close>

definition flushed :: "state \<Rightarrow> string list" where
  "flushed st =
     (if current_speaker st \<noteq> None
      then output_lines st @ [segment_line st]
      else output_lines st)"

text \<open>The line of a segment.\<close>

definition caption_line :: "int \<Rightarrow> string \<Rightarrow> string list \<Rightarrow> string" where
  "caption_line n sp parts =
     ''['' @ seconds_to_timestamp (Some n) @ ''] '' @ sp @ '': '' @
     join '' '' (filter (\<lambda>p. p \<noteq> []) parts)"

text \<open>
  The states the loop can be in: without an open segment the segment variables are all
  unset, with one the start is set, and nothing has been logged.
\<close>

definition wf_state :: "state \<Rightarrow> bool" where
  "wf_state st =
     (warnings st = [] \<and>
      (if current_speaker st = None
       then current_text_parts st = [] \<and> current_segment_start_ts_str st = None \<and>
            current_segment_start_seconds st = None
       else current_segment_start_ts_str st \<noteq> None \<and>
            current_segment_start_seconds st \<noteq> None))"

text \<open>The condition \<open>start_new_segment\<close> of the loop body, for a caption at \<open>n\<close> seconds
  by speaker \<open>sp\<close>.\<close>

definition starts_segment :: "int \<Rightarrow> state \<Rightarrow> int \<Rightarrow> string \<Rightarrow> bool" where
  "starts_segment d st n sp =
     (if current_speaker st = None then True
      else if Some sp \<noteq> current_speaker st then True
      else (case current_segment_start_seconds st of
              None \<Rightarrow> False
            | Some k \<Rightarrow> n - k > d))"

section \<open>Digits, fields and padding\<close>

lemma isdigit_digit_char: "d < 10 \<Longrightarrow> isdigit (digit_char d)"
  by (simp add: isdigit_def digit_char_def)

lemma digit_val_digit_char: "d < 10 \<Longrightarrow> digit_val (digit_char d) = d"
  by (simp add: digit_val_def digit_char_def)

lemma isdigit_not_special:
  "isdigit c \<Longrightarrow> c \<noteq> CHR '':'' \<and> c \<noteq> CHR ''.'' \<and> c \<noteq> CHR ''_'' \<and> c \<noteq> CHR ''-'' \<and> c \<noteq> CHR ''+'' \<and> c \<noteq> CHR '']'' \<and> \<not> isspace c"
  by (auto simp: isdigit_def isspace_def)

lemma str_nat_digits: "list_all isdigit (str_nat n)"
  by (induction n rule: str_nat.induct) (subst str_nat.simps, simp add: isdigit_digit_char)

lemma str_nat_nonempty: "str_nat n \<noteq> []"
  by (subst str_nat.simps) simp

lemma dec_value_snoc: "dec_value (ds @ [c]) = 10 * dec_value ds + digit_val c"
  by (simp add: dec_value_def)

lemma dec_value_str_nat: "dec_value (str_nat n) = n"
proof (induction n rule: str_nat.induct)
  case (1 n)
  show ?case
  proof (cases "n < 10")
    case True
    then show ?thesis
      by (subst str_nat.simps) (simp add: dec_value_def digit_val_digit_char)
  next
    case False
    with 1 show ?thesis
      by (subst str_nat.simps) (simp add: dec_value_snoc digit_val_digit_char)
  qed
qed

lemma digits_ok_all_digits: "ds \<noteq> [] \<Longrightarrow> list_all isdigit ds \<Longrightarrow> digits_ok ds"
  by (induction ds rule: digits_ok.induct) (auto dest: isdigit_not_special)

lemma filter_underscore_digits: "list_all isdigit ds \<Longrightarrow> filter (\<lambda>c. c \<noteq> CHR ''_'') ds = ds"
  by (induction ds) (auto dest: isdigit_not_special)

lemma strip_id: "s = [] \<or> (\<not> isspace (hd s) \<and> \<not> isspace (last s)) \<Longrightarrow> strip s = s"
proof (cases "s = []")
  case True
  then show ?thesis by (simp add: strip_def)
next
  case False
  assume "s = [] \<or> (\<not> isspace (hd s) \<and> \<not> isspace (last s))"
  with False have h: "\<not> isspace (hd s)" and l: "\<not> isspace (last s)" by auto
  have a: "dropWhile isspace s = s"
    using h by (simp add: dropWhile_eq_self_iff)
  have b: "dropWhile isspace (rev s) = rev s"
    using l by (simp add: dropWhile_eq_self_iff hd_rev)
  show ?thesis by (simp add: strip_def a b)
qed

lemma strip_no_space: "list_all (\<lambda>c. \<not> isspace c) s \<Longrightarrow> strip s = s"
  by (rule strip_id) (cases s; auto simp: list_all_iff)

lemma py_int_digits:
  assumes "ds \<noteq> []" "list_all isdigit ds"
  shows "py_int ds = Inr (int (dec_value ds))"
proof -
  have ns: "list_all (\<lambda>c. \<not> isspace c) ds"
    using assms(2) by (induction ds) (auto dest: isdigit_not_special)
  have hd: "hd ds \<noteq> CHR ''-''" "hd ds \<noteq> CHR ''+''"
    using assms by (cases ds; auto dest: isdigit_not_special)+
  show ?thesis
    using assms hd
    by (simp add: py_int_def strip_no_space[OF ns] digits_ok_all_digits filter_underscore_digits)
qed

lemma split_on_nonempty: "split_on c s \<noteq> []"
  by (induction s) (auto split: list.splits)

lemma split_on_no_sep: "c \<notin> set a \<Longrightarrow> split_on c a = [a]"
  by (induction a) auto

lemma split_on_append: "c \<notin> set a \<Longrightarrow> split_on c (a @ c # r) = a # split_on c r"
  by (induction a) auto

lemma hd_split_on: "hd (split_on c s) = takeWhile (\<lambda>x. x \<noteq> c) s"
  by (induction s) (auto split: list.splits simp: split_on_nonempty)



lemma tts_try_fields:
  "timestamp_to_seconds_try s =
     (case map_int (ts_fields s) of
        Inl e \<Rightarrow> Inl e
      | Inr parts \<Rightarrow>
          (case parts of
             [h, m, x] \<Rightarrow> Inr (Some (h * 3600 + m * 60 + x))
           | [m, x] \<Rightarrow> Inr (Some (m * 60 + x))
           | _ \<Rightarrow> Inr None))"
  by (simp add: timestamp_to_seconds_try_def ts_fields_def hd_split_on)



lemma tts_two:
  assumes "ts_fields s = [a, b]" "py_int a = Inr m" "py_int b = Inr x"
  shows "timestamp_to_seconds s = Some (m * 60 + x)"
  using assms by (simp add: timestamp_to_seconds_def tts_try_fields)

lemma tts_three:
  assumes "ts_fields s = [a, b, c]" "py_int a = Inr h" "py_int b = Inr m" "py_int c = Inr x"
  shows "timestamp_to_seconds s = Some (h * 3600 + m * 60 + x)"
  using assms by (simp add: timestamp_to_seconds_def tts_try_fields)


lemma takeWhile_all: "c \<notin> set s \<Longrightarrow> takeWhile (\<lambda>x. x \<noteq> c) s = s"
  by (induction s) auto


lemma isdigit_zero: "isdigit (CHR ''0'')"
  by (simp add: isdigit_def)

lemma digit_val_zero: "digit_val (CHR ''0'') = 0"
  by (simp add: digit_val_def)

lemma dec_value_zero_Cons: "dec_value (CHR ''0'' # ds) = dec_value ds"
  by (simp add: dec_value_def digit_val_zero)

lemma str_nat_small: "n < 10 \<Longrightarrow> str_nat n = [digit_char n]"
  by (subst str_nat.simps) simp


lemma length_str_nat_big: "10 \<le> n \<Longrightarrow> 2 \<le> length (str_nat n)"
proof -
  assume "10 \<le> n"
  then have "str_nat n = str_nat (n div 10) @ [digit_char (n mod 10)]"
    by (subst str_nat.simps) simp
  moreover obtain c cs where "str_nat (n div 10) = c # cs"
    using str_nat_nonempty[of "n div 10"] by (auto simp: neq_Nil_conv)
  ultimately show ?thesis by simp
qed

lemma format_02_small: "0 \<le> i \<Longrightarrow> i < 10 \<Longrightarrow> format_02 i = [CHR ''0'', digit_char (nat i)]"
  by (simp add: format_02_def Let_def str_nat_small)


lemma format_02_big: "10 \<le> i \<Longrightarrow> format_02 i = str_nat (nat i)"
proof -
  assume a: "10 \<le> i"
  then have "2 \<le> length (str_nat (nat i))" by (intro length_str_nat_big) simp
  then show ?thesis using a by (simp add: format_02_def Let_def)
qed

lemma format_02_digits: "0 \<le> i \<Longrightarrow> list_all isdigit (format_02 i)"
  by (simp add: format_02_def Let_def str_nat_digits isdigit_zero)

lemma format_02_value: "0 \<le> i \<Longrightarrow> int (dec_value (format_02 i)) = i"
  by (simp add: format_02_def Let_def dec_value_zero_Cons dec_value_str_nat)

lemma format_02_length_ge: "0 \<le> i \<Longrightarrow> 2 \<le> length (format_02 i)"
proof (cases "i < 10")
  case True
  assume "0 \<le> i"
  with True show ?thesis by (simp add: format_02_small)
next
  case False
  then show ?thesis using length_str_nat_big[of "nat i"] by (simp add: format_02_big)
qed


lemma digits_no_sep: "list_all isdigit ds \<Longrightarrow> CHR '':'' \<notin> set ds \<and> CHR ''.'' \<notin> set ds"
  by (induction ds) (auto dest: isdigit_not_special)

lemma py_int_format_02: "0 \<le> i \<Longrightarrow> py_int (format_02 i) = Inr i"
proof -
  assume a: "0 \<le> i"
  have ne: "format_02 i \<noteq> []" using format_02_length_ge[OF a] by auto
  show ?thesis
    using py_int_digits[OF ne format_02_digits[OF a]] format_02_value[OF a] by simp
qed



lemma hms_nonneg:
  "0 \<le> (n::int) \<Longrightarrow> 0 \<le> n div 3600 \<and> 0 \<le> n mod 3600 div 60 \<and> 0 \<le> n mod 3600 mod 60"
  by (simp add: pos_imp_zdiv_nonneg_iff)



lemma hms_sum: "(n::int) div 3600 * 3600 + n mod 3600 div 60 * 60 + n mod 3600 mod 60 = n"
  by simp

lemma stt_shape:
  "seconds_to_timestamp x =
     format_02 (clamp_seconds x div 3600) @ '':'' @
     format_02 (clamp_seconds x mod 3600 div 60) @ '':'' @
     format_02 (clamp_seconds x mod 3600 mod 60)"
  by (simp add: seconds_to_timestamp_def clamp_seconds_def Let_def)

lemma clamp_nonneg: "0 \<le> clamp_seconds x"
  by (simp add: clamp_seconds_def split: option.splits)

lemma ts_fields_three:
  assumes "list_all isdigit a" "list_all isdigit b" "list_all isdigit c"
  shows "ts_fields (a @ '':'' @ b @ '':'' @ c) = [a, b, c]"
proof -
  note na = digits_no_sep[OF assms(1)] and nb = digits_no_sep[OF assms(2)]
    and nc = digits_no_sep[OF assms(3)]
  have "CHR ''.'' \<notin> set (a @ '':'' @ b @ '':'' @ c)" using na nb nc by simp
  then have "takeWhile (\<lambda>x. x \<noteq> CHR ''.'') (a @ '':'' @ b @ '':'' @ c) = a @ '':'' @ b @ '':'' @ c"
    by (rule takeWhile_all)
  moreover have "split_on (CHR '':'') (a @ CHR '':'' # b @ CHR '':'' # c) = [a, b, c]"
    using na nb nc by (simp add: split_on_append split_on_no_sep)
  ultimately show ?thesis unfolding ts_fields_def by (simp only: append_Cons append_Nil)
qed

lemma tts_stt: "timestamp_to_seconds (seconds_to_timestamp x) = Some (clamp_seconds x)"
proof -
  let ?t = "clamp_seconds x"
  have t: "0 \<le> ?t" by (rule clamp_nonneg)
  have h: "0 \<le> ?t div 3600" and m: "0 \<le> ?t mod 3600 div 60" and s: "0 \<le> ?t mod 3600 mod 60"
    using hms_nonneg[OF t] by simp_all
  have f: "ts_fields (seconds_to_timestamp x) =
      [format_02 (?t div 3600), format_02 (?t mod 3600 div 60), format_02 (?t mod 3600 mod 60)]"
    unfolding stt_shape
    by (rule ts_fields_three) (simp_all add: format_02_digits h m s)
  have "timestamp_to_seconds (seconds_to_timestamp x) =
      Some (?t div 3600 * 3600 + ?t mod 3600 div 60 * 60 + ?t mod 3600 mod 60)"
    by (rule tts_three[OF f]) (simp_all add: py_int_format_02 h m s)
  also have "?t div 3600 * 3600 + ?t mod 3600 div 60 * 60 + ?t mod 3600 mod 60 = ?t"
    by (rule hms_sum)
  finally show ?thesis .
qed

lemma stt_clamp: "seconds_to_timestamp (Some (clamp_seconds x)) = seconds_to_timestamp x"
  by (simp add: seconds_to_timestamp_def clamp_seconds_def split: option.splits)

section \<open>What the pattern accepts\<close>

lemma d2_Some: "d2 s = Some (a, r) \<Longrightarrow> \<exists>x y. s = x # y # r \<and> a = [x, y] \<and> isdigit x \<and> isdigit y"
  by (cases s rule: d2.cases) (auto split: if_splits)

lemma lit_Some: "lit c s = Some r \<Longrightarrow> s = c # r"
  by (cases s) (auto split: if_splits)

lemma d2_colon_Some:
  "d2_colon s = Some (a, r) \<Longrightarrow> \<exists>x y. a = [x, y, CHR '':''] \<and> isdigit x \<and> isdigit y"
  by (auto simp: d2_colon_def split: option.splits dest!: d2_Some lit_Some)

lemma frac_opt_shape:
  "frac_opt s = (f, r) \<Longrightarrow> f = [] \<or> (\<exists>ds. f = CHR ''.'' # ds \<and> ds \<noteq> [] \<and> list_all isdigit ds)"
  by (auto simp: frac_opt_def list_all_iff split: list.splits if_splits dest: set_takeWhileD)

lemma ts_tail_Some:
  "ts_tail s = Some (t, r) \<Longrightarrow>
     \<exists>a b c d f. t = [a, b, CHR '':'', c, d] @ f \<and> isdigit a \<and> isdigit b \<and> isdigit c \<and> isdigit d \<and>
       (f = [] \<or> (\<exists>ds. f = CHR ''.'' # ds \<and> ds \<noteq> [] \<and> list_all isdigit ds))"
  by (auto simp: ts_tail_def split: option.splits prod.splits dest!: d2_colon_Some d2_Some dest: frac_opt_shape)

lemma ts_group_Some:
  "ts_group s = Some (t, r) \<Longrightarrow>
     \<exists>body f. t = body @ f \<and>
       ((\<exists>a b c d. body = [a, b, CHR '':'', c, d] \<and> isdigit a \<and> isdigit b \<and> isdigit c \<and> isdigit d) \<or>
        (\<exists>a b c d x y. body = [a, b, CHR '':'', c, d, CHR '':'', x, y] \<and> isdigit a \<and> isdigit b \<and>
            isdigit c \<and> isdigit d \<and> isdigit x \<and> isdigit y)) \<and>
       (f = [] \<or> (\<exists>ds. f = CHR ''.'' # ds \<and> ds \<noteq> [] \<and> list_all isdigit ds))"
proof -
  assume "ts_group s = Some (t, r)"
  then consider
    (hours) h r1 t1 where "d2_colon s = Some (h, r1)" "ts_tail r1 = Some (t1, r)" "t = h @ t1"
    | (plain) "ts_tail s = Some (t, r)"
    by (auto simp: ts_group_def split: option.splits)
  then show ?thesis
  proof cases
    case hours
    from d2_colon_Some[OF hours(1)] ts_tail_Some[OF hours(2)] hours(3) show ?thesis
      by (elim exE conjE) (rule exI[where x = "take 8 t"], rule exI[where x = "drop 8 t"], auto)
  next
    case plain
    from ts_tail_Some[OF plain] show ?thesis
      by (elim exE conjE) (rule exI[where x = "take 5 t"], rule exI[where x = "drop 5 t"], auto)
  qed
qed

lemma two_digit_fields_mmss:
  assumes "isdigit a" "isdigit b" "isdigit c" "isdigit d"
    and "f = [] \<or> (\<exists>ds. f = CHR ''.'' # ds \<and> ds \<noteq> [] \<and> list_all isdigit ds)"
  shows "two_digit_fields ([a, b, CHR '':'', c, d] @ f)"
proof -
  note n = assms(1-4)[THEN isdigit_not_special]
  have tw: "takeWhile (\<lambda>c. c \<noteq> CHR ''.'') ([a, b, CHR '':'', c, d] @ f) = [a, b, CHR '':'', c, d]"
    using n assms(5) by auto
  have dw: "dropWhile (\<lambda>c. c \<noteq> CHR ''.'') ([a, b, CHR '':'', c, d] @ f) = f"
    using n assms(5) by auto
  have sp: "split_on (CHR '':'') [a, b, CHR '':'', c, d] = [[a, b], [c, d]]"
    using n by simp
  show ?thesis
    unfolding two_digit_fields_def ts_fields_def tw dw sp
    using assms by auto
qed

lemma two_digit_fields_hhmmss:
  assumes "isdigit a" "isdigit b" "isdigit c" "isdigit d" "isdigit x" "isdigit y"
    and "f = [] \<or> (\<exists>ds. f = CHR ''.'' # ds \<and> ds \<noteq> [] \<and> list_all isdigit ds)"
  shows "two_digit_fields ([a, b, CHR '':'', c, d, CHR '':'', x, y] @ f)"
proof -
  note n = assms(1-6)[THEN isdigit_not_special]
  have tw: "takeWhile (\<lambda>c. c \<noteq> CHR ''.'') ([a, b, CHR '':'', c, d, CHR '':'', x, y] @ f)
      = [a, b, CHR '':'', c, d, CHR '':'', x, y]"
    using n assms(7) by auto
  have dw: "dropWhile (\<lambda>c. c \<noteq> CHR ''.'') ([a, b, CHR '':'', c, d, CHR '':'', x, y] @ f) = f"
    using n assms(7) by auto
  have sp: "split_on (CHR '':'') [a, b, CHR '':'', c, d, CHR '':'', x, y] = [[a, b], [c, d], [x, y]]"
    using n by simp
  show ?thesis
    unfolding two_digit_fields_def ts_fields_def tw dw sp
    using assms by auto
qed

lemma ts_group_two_digit: "ts_group s = Some (t, r) \<Longrightarrow> two_digit_fields t"
  by (drule ts_group_Some) (auto intro: two_digit_fields_mmss two_digit_fields_hhmmss simp del: append_Cons)

lemma line_regex_two_digit: "line_regex l = Some (ts, sp, tx) \<Longrightarrow> two_digit_fields ts"
proof -
  assume "line_regex l = Some (ts, sp, tx)"
  then obtain r0 r1 where "ts_group r0 = Some (ts, r1)"
    by (auto simp: line_regex_def split: option.splits)
  then show ?thesis by (rule ts_group_two_digit)
qed

lemma py_int_two_digits:
  "length f = 2 \<and> list_all isdigit f \<Longrightarrow> py_int f = Inr (int (dec_value f))"
  by (rule py_int_digits) auto

lemma two_digit_fields_parse:
  assumes "two_digit_fields ts"
  shows "\<exists>n. timestamp_to_seconds ts = Some n \<and> 0 \<le> n"
proof -
  from assms have len: "length (ts_fields ts) = 2 \<or> length (ts_fields ts) = 3"
    and all: "list_all (\<lambda>f. length f = 2 \<and> list_all isdigit f) (ts_fields ts)"
    by (simp_all add: two_digit_fields_def)
  from len show ?thesis
  proof
    assume "length (ts_fields ts) = 2"
    then obtain a b where f: "ts_fields ts = [a, b]"
      by (auto simp: length_Suc_conv numeral_2_eq_2)
    with all have "py_int a = Inr (int (dec_value a))" "py_int b = Inr (int (dec_value b))"
      by (simp_all add: py_int_two_digits)
    from tts_two[OF f this] show ?thesis by simp
  next
    assume "length (ts_fields ts) = 3"
    then obtain a b c where f: "ts_fields ts = [a, b, c]"
      by (auto simp: length_Suc_conv numeral_3_eq_3)
    with all have "py_int a = Inr (int (dec_value a))" "py_int b = Inr (int (dec_value b))"
      "py_int c = Inr (int (dec_value c))"
      by (simp_all add: py_int_two_digits)
    from tts_three[OF f this] show ?thesis by simp
  qed
qed

lemma line_regex_parses:
  "line_regex l = Some (ts, sp, tx) \<Longrightarrow> \<exists>n. timestamp_to_seconds ts = Some n \<and> 0 \<le> n"
  by (rule two_digit_fields_parse) (rule line_regex_two_digit)

lemma classify_not_Dropped: "classify raw \<noteq> Dropped"
  by (auto simp: classify_def Let_def split: option.splits dest: line_regex_parses)

section \<open>The loop, one line at a time\<close>

lemma classify_BlankD: "classify raw = Blank \<Longrightarrow> strip raw = []"
  by (simp add: classify_def Let_def split: if_splits option.splits prod.splits)

lemma classify_PassthroughD:
  "classify raw = Passthrough l \<Longrightarrow> strip raw = l \<and> l \<noteq> [] \<and> line_regex l = None"
  by (simp add: classify_def Let_def split: if_splits option.splits prod.splits)

lemma classify_CaptionD:
  "classify raw = Caption n sp t \<Longrightarrow>
     strip raw \<noteq> [] \<and>
     (\<exists>ts sp0 t0. line_regex (strip raw) = Some (ts, sp0, t0) \<and>
        timestamp_to_seconds ts = Some n \<and> sp = strip sp0 \<and> t = strip t0)"
  by (simp add: classify_def Let_def split: if_splits option.splits prod.splits)

lemma loop_body_Blank: "classify raw = Blank \<Longrightarrow> loop_body d i raw st = st"
  by (drule classify_BlankD) (simp add: loop_body_def)

lemma loop_body_Passthrough:
  "classify raw = Passthrough l \<Longrightarrow>
   loop_body d i raw st =
     (if current_speaker st \<noteq> None
      then st\<lparr>output_lines := output_lines st @ [segment_line st, l],
              current_speaker := None, current_text_parts := [],
              current_segment_start_ts_str := None, current_segment_start_seconds := None\<rparr>
      else st\<lparr>output_lines := output_lines st @ [l]\<rparr>)"
  by (drule classify_PassthroughD) (simp add: loop_body_def Let_def)

lemma loop_body_Caption:
  assumes "classify raw = Caption n sp t"
  shows "loop_body d i raw st =
     (if current_speaker st = None \<or> current_speaker st \<noteq> Some sp \<or>
         (case current_segment_start_seconds st of None \<Rightarrow> False | Some s0 \<Rightarrow> n - s0 > d)
      then st\<lparr>output_lines := flushed st,
              current_segment_start_ts_str := Some (seconds_to_timestamp (Some n)),
              current_segment_start_seconds := Some n,
              current_speaker := Some sp,
              current_text_parts := [t]\<rparr>
      else if t \<noteq> [] then st\<lparr>current_text_parts := current_text_parts st @ [t]\<rparr> else st)"
proof -
  from classify_CaptionD[OF assms] obtain ts sp0 t0 where
    ne: "strip raw \<noteq> []" and m: "line_regex (strip raw) = Some (ts, sp0, t0)"
    and p: "timestamp_to_seconds ts = Some n" and sp: "sp = strip sp0" and t: "t = strip t0"
    by blast
  show ?thesis
    unfolding loop_body_def Let_def flushed_def
    by (simp add: ne m p sp[symmetric] t[symmetric] eq_commute[of "Some sp"])
qed


lemma loop_body_index: "loop_body d i raw st = loop_body d j raw st"
  by (cases "classify raw")
     (simp_all add: loop_body_Blank loop_body_Passthrough loop_body_Caption classify_not_Dropped)

lemma process_lines_index: "process_lines d i ls st = process_lines d j ls st"
proof (induction ls arbitrary: i j st)
  case Nil
  show ?case by simp
next
  case (Cons l ls)
  have "process_lines d i (l # ls) st = process_lines d (Suc i) ls (loop_body d i l st)"
    by simp
  also have "\<dots> = process_lines d (Suc j) ls (loop_body d j l st)"
    using Cons.IH[where i = "Suc i" and j = "Suc j"] loop_body_index[of d i l st j] by simp
  finally show ?case by simp
qed

lemma process_lines_append:
  "process_lines d i (xs @ ys) st = process_lines d j ys (process_lines d i xs st)"
proof (induction xs arbitrary: i st)
  case Nil
  show ?case using process_lines_index[of d i ys st j] by simp
next
  case (Cons x xs)
  show ?case by (simp add: Cons.IH)
qed

lemma wf_init: "wf_state init_state"
  by (simp add: wf_state_def init_state_def)

lemma wf_loop_body: "wf_state st \<Longrightarrow> wf_state (loop_body d i raw st)"
  by (cases "classify raw")
     (auto simp add: loop_body_Blank loop_body_Passthrough loop_body_Caption classify_not_Dropped
        wf_state_def flushed_def split: if_splits)

lemma wf_process_lines: "wf_state st \<Longrightarrow> wf_state (process_lines d i ls st)"
  by (induction ls arbitrary: i st) (simp_all add: wf_loop_body)

lemma segment_line_output [simp]:
  "segment_line (st\<lparr>output_lines := out\<rparr>) = segment_line st"
  by (simp add: segment_line_def)

lemma flushed_prefix:
  "flushed (st\<lparr>output_lines := out @ output_lines st\<rparr>) = out @ flushed st"
  by (simp add: flushed_def)

lemma loop_body_prefix:
  "loop_body d i raw (st\<lparr>output_lines := out @ output_lines st\<rparr>) =
     (loop_body d i raw st)\<lparr>output_lines := out @ output_lines (loop_body d i raw st)\<rparr>"
  by (cases "classify raw")
     (simp_all add: loop_body_Blank loop_body_Passthrough loop_body_Caption classify_not_Dropped
        flushed_def)

lemma process_lines_prefix:
  "process_lines d i ls (st\<lparr>output_lines := out @ output_lines st\<rparr>) =
     (process_lines d i ls st)\<lparr>output_lines := out @ output_lines (process_lines d i ls st)\<rparr>"
proof (induction ls arbitrary: i st)
  case Nil
  show ?case by simp
next
  case (Cons l ls)
  show ?case by (simp add: loop_body_prefix Cons.IH)
qed

lemma final_lines_flushed: "final_lines d ls = flushed (process_lines d 0 ls init_state)"
  by (simp add: final_lines_def flushed_def Let_def)

lemma boundary:
  assumes "loop_body d i l st =
      (loop_body d 0 l init_state)\<lparr>output_lines := flushed st @ output_lines (loop_body d 0 l init_state)\<rparr>"
  shows "flushed (process_lines d i (l # post) st) = flushed st @ final_lines d (l # post)"
proof -
  let ?s0 = "loop_body d 0 l init_state"
  have "process_lines d i (l # post) st =
      process_lines d 1 post (?s0\<lparr>output_lines := flushed st @ output_lines ?s0\<rparr>)"
    using assms process_lines_index[of d "Suc i" post _ 1] by simp
  also have "\<dots> = (process_lines d 1 post ?s0)
      \<lparr>output_lines := flushed st @ output_lines (process_lines d 1 post ?s0)\<rparr>"
    by (rule process_lines_prefix)
  finally show ?thesis
    by (simp add: flushed_prefix final_lines_flushed)
qed

lemma final_lines_boundary:
  assumes "loop_body d 0 l (process_lines d 0 pre init_state) =
      (loop_body d 0 l init_state)\<lparr>output_lines := final_lines d pre @ output_lines (loop_body d 0 l init_state)\<rparr>"
  shows "final_lines d (pre @ l # post) = final_lines d pre @ final_lines d (l # post)"
proof -
  have "final_lines d (pre @ l # post) =
      flushed (process_lines d 0 (l # post) (process_lines d 0 pre init_state))"
    unfolding final_lines_flushed by (subst process_lines_append[where j = 0]) simp
  also have "\<dots> = flushed (process_lines d 0 pre init_state) @ final_lines d (l # post)"
    by (rule boundary) (use assms in \<open>simp add: final_lines_flushed\<close>)
  finally show ?thesis by (simp add: final_lines_flushed)
qed

lemma loop_body_init_Passthrough:
  "classify l = Passthrough p \<Longrightarrow> loop_body d i l init_state = init_state\<lparr>output_lines := [p]\<rparr>"
  by (simp add: loop_body_Passthrough) (simp add: init_state_def)

lemma loop_body_init_Caption:
  "classify l = Caption n sp t \<Longrightarrow>
   loop_body d i l init_state =
     init_state\<lparr>current_segment_start_ts_str := Some (seconds_to_timestamp (Some n)),
                current_segment_start_seconds := Some n,
                current_speaker := Some sp,
                current_text_parts := [t]\<rparr>"
  by (simp add: loop_body_Caption) (simp add: init_state_def flushed_def)

lemma passthrough_boundary:
  assumes "wf_state st" "classify l = Passthrough p"
  shows "loop_body d i l st =
      (loop_body d 0 l init_state)\<lparr>output_lines := flushed st @ output_lines (loop_body d 0 l init_state)\<rparr>"
  using assms(1)
  by (cases st)
     (auto simp add: loop_body_init_Passthrough[OF assms(2)] loop_body_Passthrough[OF assms(2)]
        wf_state_def flushed_def init_state_def split: if_splits)

lemma caption_boundary:
  assumes "wf_state st" "classify l = Caption n sp t"
    and "current_speaker st \<noteq> Some sp \<or>
         (\<exists>n0. current_segment_start_seconds st = Some n0 \<and> n - n0 > d)"
  shows "loop_body d i l st =
      (loop_body d 0 l init_state)\<lparr>output_lines := flushed st @ output_lines (loop_body d 0 l init_state)\<rparr>"
  using assms(1,3)
  by (cases st)
     (auto simp add: loop_body_init_Caption[OF assms(2)] loop_body_Caption[OF assms(2)]
        wf_state_def flushed_def init_state_def split: if_splits)

lemma wf_reached: "wf_state (process_lines d i ls init_state)"
  by (rule wf_process_lines) (rule wf_init)

lemma final_lines_Passthrough_Cons:
  assumes "classify l = Passthrough p"
  shows "final_lines d (l # post) = p # final_lines d post"
proof -
  have e: "loop_body d 0 l init_state = init_state\<lparr>output_lines := [p] @ output_lines init_state\<rparr>"
    by (simp add: loop_body_init_Passthrough[OF assms]) (simp add: init_state_def)
  have "process_lines d 0 (l # post) init_state =
      process_lines d 0 post (init_state\<lparr>output_lines := [p] @ output_lines init_state\<rparr>)"
    unfolding process_lines.simps e by (rule process_lines_index)
  also have "\<dots> = (process_lines d 0 post init_state)
      \<lparr>output_lines := [p] @ output_lines (process_lines d 0 post init_state)\<rparr>"
    by (rule process_lines_prefix)
  finally show ?thesis
    by (simp add: final_lines_flushed flushed_def)
qed

lemma final_lines_Passthrough:
  assumes "classify l = Passthrough p"
  shows "final_lines d (pre @ l # post) = final_lines d pre @ [p] @ final_lines d post"
proof -
  have "final_lines d (pre @ l # post) = final_lines d pre @ final_lines d (l # post)"
    by (rule final_lines_boundary)
       (simp add: final_lines_flushed passthrough_boundary[OF wf_reached assms])
  then show ?thesis
    by (simp add: final_lines_Passthrough_Cons[OF assms])
qed

lemma speaker_after_Caption:
  "classify l = Caption n sp t \<Longrightarrow> current_speaker (loop_body d i l st) = Some sp"
  by (auto simp add: loop_body_Caption)

lemma merge_run:
  assumes "current_speaker st = Some sp" "current_segment_start_seconds st = Some start"
    and "list_all (caption_within sp start d) ls"
  shows "process_lines d i ls st =
      st\<lparr>current_text_parts :=
           current_text_parts st @ filter (\<lambda>p. p \<noteq> []) (map caption_text ls)\<rparr>"
  using assms
proof (induction ls arbitrary: i st)
  case Nil
  show ?case by simp
next
  case (Cons l ls)
  from Cons.prems(3) obtain n t where c: "classify l = Caption n sp t" and w: "n - start \<le> d"
    by (auto simp: caption_within_def split: classified.splits)
  have t: "caption_text l = t" by (simp add: caption_text_def c)
  let ?st = "loop_body d i l st"
  have step: "?st = st\<lparr>current_text_parts := current_text_parts st @ (if t \<noteq> [] then [t] else [])\<rparr>"
    using Cons.prems(1,2) w by (simp add: loop_body_Caption[OF c])
  have "process_lines d (Suc i) ls ?st =
      ?st\<lparr>current_text_parts :=
            current_text_parts ?st @ filter (\<lambda>p. p \<noteq> []) (map caption_text ls)\<rparr>"
    using Cons.prems by (intro Cons.IH) (simp_all add: step)
  then show ?case
    by (simp add: step t)
qed

lemma final_lines_merge_run:
  assumes "classify l1 = Caption n1 sp t1" "list_all (caption_within sp n1 d) ls"
  shows "final_lines d (l1 # ls) = [caption_line n1 sp (t1 # map caption_text ls)]"
proof -
  let ?s1 = "loop_body d 0 l1 init_state"
  have fields: "current_speaker ?s1 = Some sp" "current_segment_start_seconds ?s1 = Some n1"
    "current_text_parts ?s1 = [t1]"
    "current_segment_start_ts_str ?s1 = Some (seconds_to_timestamp (Some n1))"
    "output_lines ?s1 = []"
    unfolding loop_body_init_Caption[OF assms(1)] by (simp_all add: init_state_def)
  have run: "process_lines d (Suc 0) ls ?s1 =
      ?s1\<lparr>current_text_parts :=
            current_text_parts ?s1 @ filter (\<lambda>p. p \<noteq> []) (map caption_text ls)\<rparr>"
    by (rule merge_run[where start = n1 and sp = sp]) (rule fields assms(2))+
  show ?thesis
    unfolding final_lines_flushed process_lines.simps run
    by (simp add: flushed_def segment_line_def caption_line_def fmt_opt_def fields)
qed

lemma starts_segment_boundary:
  assumes "wf_state st" "classify l = Caption n sp t" "starts_segment d st n sp"
  shows "loop_body d i l st =
      (loop_body d 0 l init_state)\<lparr>output_lines := flushed st @ output_lines (loop_body d 0 l init_state)\<rparr>"
proof (rule caption_boundary[OF assms(1,2)])
  show "current_speaker st \<noteq> Some sp \<or>
         (\<exists>n0. current_segment_start_seconds st = Some n0 \<and> n - n0 > d)"
    using assms(3) by (auto simp: starts_segment_def split: if_splits option.splits)
qed

lemma final_lines_segment_start:
  assumes "classify l = Caption n sp t" "starts_segment d (process_lines d 0 pre init_state) n sp"
  shows "final_lines d (pre @ l # post) = final_lines d pre @ final_lines d (l # post)"
  by (rule final_lines_boundary)
     (simp add: final_lines_flushed starts_segment_boundary[OF wf_reached assms])

lemma process_merge_run_fields:
  assumes "classify l1 = Caption n1 sp t1" "list_all (caption_within sp n1 d) ls"
  shows "current_speaker (process_lines d 0 (l1 # ls) init_state) = Some sp \<and>
         current_segment_start_seconds (process_lines d 0 (l1 # ls) init_state) = Some n1"
proof -
  let ?s1 = "loop_body d 0 l1 init_state"
  have fields: "current_speaker ?s1 = Some sp" "current_segment_start_seconds ?s1 = Some n1"
    unfolding loop_body_init_Caption[OF assms(1)] by (simp_all add: init_state_def)
  have run: "process_lines d (Suc 0) ls ?s1 =
      ?s1\<lparr>current_text_parts :=
            current_text_parts ?s1 @ filter (\<lambda>p. p \<noteq> []) (map caption_text ls)\<rparr>"
    by (rule merge_run[where start = n1 and sp = sp]) (rule fields assms(2))+
  show ?thesis
    unfolding process_lines.simps run by (simp add: fields)
qed




section \<open>The timestamp codec: claims\<close>



text \<open>
  C7. Formatting, parsing and formatting again gives the string of the first formatting:
  for every argument of \<open>seconds_to_timestamp\<close>, and so for the result of
  \<open>timestamp_to_seconds\<close> on every string.
\<close>

theorem seconds_to_timestamp_fixed_point:
  "seconds_to_timestamp (timestamp_to_seconds (seconds_to_timestamp x)) = seconds_to_timestamp x \<and>
   seconds_to_timestamp (timestamp_to_seconds (seconds_to_timestamp (timestamp_to_seconds s)))
     = seconds_to_timestamp (timestamp_to_seconds s)"
  by (simp add: tts_stt stt_clamp)



section \<open>The segment merger: claims\<close>

text \<open>
  C5. A line that, once trimmed, is not empty and does not match the caption pattern is
  written to the output as a line of its own, as trimmed and otherwise unchanged, at its
  position: the output of the lines before it (their open segment written first), then the
  line, then the output of the lines after it, which start from a state without an open
  segment. So it is merged with the captions of neither side. Here \<open>lines\<close> is the list
  \<open>input_text.strip().splitlines()\<close> the loop runs over.
\<close>

theorem passthrough_line_kept:
  assumes "strip raw \<noteq> []" and "line_regex (strip raw) = None"
  shows "final_lines d (pre @ raw # post) = final_lines d pre @ [strip raw] @ final_lines d post \<and>
         flushed (loop_body d i raw st) = flushed st @ [strip raw] \<and>
         current_speaker (loop_body d i raw st) = None"
proof -
  have c: "classify raw = Passthrough (strip raw)"
    using assms by (simp add: classify_def)
  have "flushed (loop_body d i raw st) = flushed st @ [strip raw]"
    by (simp add: loop_body_Passthrough[OF c] flushed_def)
  moreover have "current_speaker (loop_body d i raw st) = None"
    by (simp add: loop_body_Passthrough[OF c])
  ultimately show ?thesis
    using final_lines_Passthrough[OF c] by simp
qed

theorem passthrough_line_kept_witness:
  "final_lines 30 [''[00:00] A: Hi'', ''  Some header text  '', ''[00:02] A: there'']
     = [''[00:00:00] A: Hi'', ''Some header text'', ''[00:00:02] A: there'']"
proof -
  have s: "strip ''  Some header text  '' = ''Some header text''"
    by code_simp
  have a: "strip ''  Some header text  '' \<noteq> []"
    unfolding s by simp
  have b: "line_regex (strip ''  Some header text  '') = None"
    unfolding s by code_simp
  have pre: "final_lines 30 [''[00:00] A: Hi''] = [''[00:00:00] A: Hi'']"
    by code_simp
  have post: "final_lines 30 [''[00:02] A: there''] = [''[00:00:02] A: there'']"
    by code_simp
  from passthrough_line_kept[OF a b, of 30 "[''[00:00] A: Hi'']" "[''[00:02] A: there'']"]
  show ?thesis
    unfolding s pre post by simp
qed

text \<open>
  C6. A caption that starts a segment, followed by captions of the same speaker whose
  seconds are at most \<open>max_segment_duration\<close> after its own, gives one output line; the
  timestamp of that line is \<open>seconds_to_timestamp\<close> of the first caption's parsed seconds,
  not the text between the brackets of the input.
\<close>

theorem merged_segment_timestamp:
  assumes "classify l1 = Caption n1 sp t1"
    and "list_all (caption_within sp n1 d) ls"
    and "starts_segment d (process_lines d 0 pre init_state) n1 sp"
  shows "final_lines d (pre @ l1 # ls) =
           final_lines d pre @
           [''['' @ seconds_to_timestamp (Some n1) @ ''] '' @ sp @ '': '' @
            join '' '' (filter (\<lambda>p. p \<noteq> []) (t1 # map caption_text ls))]"
  using final_lines_segment_start[OF assms(1,3), of ls] final_lines_merge_run[OF assms(1,2)]
  by (simp add: caption_line_def)

theorem merged_segment_timestamp_witness:
  "final_lines 30 [''intro'', ''[01:05] A: one'', ''[01:07] A:'', ''[01:02.5] A: two'', ''[01:35] A: three'']
     = [''intro'', ''[00:01:05] A: one two three'']"
proof -
  have a: "classify ''[01:05] A: one'' = Caption 65 ''A'' ''one''"
    by code_simp
  have b: "list_all (caption_within ''A'' 65 30) [''[01:07] A:'', ''[01:02.5] A: two'', ''[01:35] A: three'']"
    by code_simp
  have c: "starts_segment 30 (process_lines 30 0 [''intro''] init_state) 65 ''A''"
    by code_simp
  have pre: "final_lines 30 [''intro''] = [''intro'']"
    by code_simp
  have t: "map caption_text [''[01:07] A:'', ''[01:02.5] A: two'', ''[01:35] A: three''] = [[], ''two'', ''three'']"
    by code_simp
  have s: "seconds_to_timestamp (Some 65) = ''00:01:05''"
    by code_simp
  from merged_segment_timestamp[OF a b c]
  show ?thesis
    unfolding pre t s by simp
qed

text \<open>
  C3. With a segment open, a caption of the same speaker whose seconds exceed the start of
  the segment by more than \<open>max_segment_duration\<close> writes the open segment and starts a new
  one at that caption; one within the window is appended and leaves the start as it was.
  The comparison is with the start of the segment: after a first caption and any number of
  merged ones, a caption more than the window after the first starts a new line, however
  close it is to the last one. The two captions at \<open>00:00\<close> and \<open>00:40\<close> of one speaker,
  with a window of 30, which is also the default, give two lines.
\<close>

theorem window_measured_from_segment_start:
  "(\<forall>st raw i sp k n t.
      current_speaker st = Some sp \<and> current_segment_start_seconds st = Some k \<and>
      classify raw = Caption n sp t \<and> n - k > d \<longrightarrow>
      loop_body d i raw st =
        st\<lparr>output_lines := output_lines st @ [segment_line st],
            current_segment_start_ts_str := Some (seconds_to_timestamp (Some n)),
            current_segment_start_seconds := Some n,
            current_speaker := Some sp,
            current_text_parts := [t]\<rparr>) \<and>
   (\<forall>st raw i sp k n t.
      current_speaker st = Some sp \<and> current_segment_start_seconds st = Some k \<and>
      classify raw = Caption n sp t \<and> n - k \<le> d \<longrightarrow>
      loop_body d i raw st =
        st\<lparr>current_text_parts := current_text_parts st @ (if t = [] then [] else [t])\<rparr>) \<and>
   (\<forall>l1 n1 sp t1 ls l n t post.
      classify l1 = Caption n1 sp t1 \<and> list_all (caption_within sp n1 d) ls \<and>
      classify l = Caption n sp t \<and> n - n1 > d \<longrightarrow>
      final_lines d (l1 # ls @ l # post) =
        (''['' @ seconds_to_timestamp (Some n1) @ ''] '' @ sp @ '': '' @
           join '' '' (filter (\<lambda>p. p \<noteq> []) (t1 # map caption_text ls)))
        # final_lines d (l # post)) \<and>
   process_transcript ''[00:00] A: Hi\<newline>[00:40] A: still there'' 30
     = ''[00:00:00] A: Hi\<newline>[00:00:40] A: still there'' \<and>
   process_transcript_default ''[00:00] A: Hi\<newline>[00:40] A: still there''
     = ''[00:00:00] A: Hi\<newline>[00:00:40] A: still there''"
proof (intro conjI allI impI)
  fix st :: state and raw i sp k n t
  assume a: "current_speaker st = Some sp \<and> current_segment_start_seconds st = Some k \<and>
      classify raw = Caption n sp t \<and> n - k > d"
  then have c: "classify raw = Caption n sp t" by simp
  show "loop_body d i raw st =
        st\<lparr>output_lines := output_lines st @ [segment_line st],
            current_segment_start_ts_str := Some (seconds_to_timestamp (Some n)),
            current_segment_start_seconds := Some n,
            current_speaker := Some sp,
            current_text_parts := [t]\<rparr>"
    using a by (simp add: loop_body_Caption[OF c] flushed_def)
next
  fix st :: state and raw i sp k n t
  assume a: "current_speaker st = Some sp \<and> current_segment_start_seconds st = Some k \<and>
      classify raw = Caption n sp t \<and> n - k \<le> d"
  then have c: "classify raw = Caption n sp t" by simp
  show "loop_body d i raw st =
        st\<lparr>current_text_parts := current_text_parts st @ (if t = [] then [] else [t])\<rparr>"
    using a by (simp add: loop_body_Caption[OF c])
next
  fix l1 n1 sp t1 ls l n t post
  assume a: "classify l1 = Caption n1 sp t1 \<and> list_all (caption_within sp n1 d) ls \<and>
      classify l = Caption n sp t \<and> n - n1 > d"
  then have c1: "classify l1 = Caption n1 sp t1" and w: "list_all (caption_within sp n1 d) ls"
    and c: "classify l = Caption n sp t" and gap: "n - n1 > d"
    by simp_all
  have "starts_segment d (process_lines d 0 (l1 # ls) init_state) n sp"
    using process_merge_run_fields[OF c1 w] gap by (simp add: starts_segment_def)
  from final_lines_segment_start[OF c this, of post] final_lines_merge_run[OF c1 w]
  show "final_lines d (l1 # ls @ l # post) =
        (''['' @ seconds_to_timestamp (Some n1) @ ''] '' @ sp @ '': '' @
           join '' '' (filter (\<lambda>p. p \<noteq> []) (t1 # map caption_text ls)))
        # final_lines d (l # post)"
    by (simp add: caption_line_def)
next
  show "process_transcript ''[00:00] A: Hi\<newline>[00:40] A: still there'' 30
     = ''[00:00:00] A: Hi\<newline>[00:00:40] A: still there''"
    by code_simp
next
  show "process_transcript_default ''[00:00] A: Hi\<newline>[00:40] A: still there''
     = ''[00:00:00] A: Hi\<newline>[00:00:40] A: still there''"
    by code_simp
qed

theorem window_measured_from_segment_start_witness:
  "process_transcript ''[00:00] A: Hi\<newline>[00:40] A: still there'' 30
     = ''[00:00:00] A: Hi\<newline>[00:00:40] A: still there'' \<and>
   final_lines 30 [''[00:00] A: Hi'', ''[00:20] A: still'', ''[00:40] A: there'', ''[00:45] A: now'']
     = [''[00:00:00] A: Hi still'', ''[00:00:40] A: there now'']"
proof -
  have a: "process_transcript ''[00:00] A: Hi\<newline>[00:40] A: still there'' 30
     = ''[00:00:00] A: Hi\<newline>[00:00:40] A: still there''"
    by (rule window_measured_from_segment_start[THEN conjunct2, THEN conjunct2, THEN conjunct2,
          THEN conjunct1])
  have c1: "classify ''[00:00] A: Hi'' = Caption 0 ''A'' ''Hi''"
    by code_simp
  have w: "list_all (caption_within ''A'' 0 30) [''[00:20] A: still'']"
    by code_simp
  have c: "classify ''[00:40] A: there'' = Caption 40 ''A'' ''there''"
    by code_simp
  have t: "map caption_text [''[00:20] A: still''] = [''still'']"
    by code_simp
  have s: "seconds_to_timestamp (Some 0) = ''00:00:00''"
    by code_simp
  have post: "final_lines 30 [''[00:40] A: there'', ''[00:45] A: now''] = [''[00:00:40] A: there now'']"
    by code_simp
  have "final_lines 30 (''[00:00] A: Hi'' # [''[00:20] A: still''] @ ''[00:40] A: there'' # [''[00:45] A: now''])
      = (''['' @ seconds_to_timestamp (Some 0) @ ''] '' @ ''A'' @ '': '' @
           join '' '' (filter (\<lambda>p. p \<noteq> []) (''Hi'' # map caption_text [''[00:20] A: still''])))
        # final_lines 30 (''[00:40] A: there'' # [''[00:45] A: now''])"
    by (rule window_measured_from_segment_start[THEN conjunct2, THEN conjunct2, THEN conjunct1,
           rule_format,
           where n = 40 and t = "''there''"])
       (use c1 w c in simp)
  then show ?thesis
    unfolding t s post using a by simp
qed

text \<open>
  C4. Two consecutive captions whose trimmed speakers differ (compared exactly, case
  included): whatever the state before and whatever the two timestamps, the second one
  writes the open segment and starts a new one, and the output splits between them: the
  output of the lines up to the first caption, then the output of the lines from the
  second on.
\<close>

theorem speaker_change_starts_segment:
  assumes "classify l1 = Caption n1 sp1 t1" and "classify l2 = Caption n2 sp2 t2"
    and "sp1 \<noteq> sp2"
  shows "loop_body d j l2 (loop_body d i l1 st) =
           (loop_body d i l1 st)
             \<lparr>output_lines := output_lines (loop_body d i l1 st) @ [segment_line (loop_body d i l1 st)],
              current_segment_start_ts_str := Some (seconds_to_timestamp (Some n2)),
              current_segment_start_seconds := Some n2,
              current_speaker := Some sp2,
              current_text_parts := [t2]\<rparr> \<and>
         final_lines d (pre @ l1 # l2 # post) = final_lines d (pre @ [l1]) @ final_lines d (l2 # post) \<and>
         final_lines d (pre @ [l1, l2]) =
           final_lines d (pre @ [l1]) @
           [''['' @ seconds_to_timestamp (Some n2) @ ''] '' @ sp2 @ '': '' @ t2]"
proof (intro conjI)
  have sp: "current_speaker (loop_body d i l1 st) = Some sp1"
    by (rule speaker_after_Caption[OF assms(1)])
  show "loop_body d j l2 (loop_body d i l1 st) =
           (loop_body d i l1 st)
             \<lparr>output_lines := output_lines (loop_body d i l1 st) @ [segment_line (loop_body d i l1 st)],
              current_segment_start_ts_str := Some (seconds_to_timestamp (Some n2)),
              current_segment_start_seconds := Some n2,
              current_speaker := Some sp2,
              current_text_parts := [t2]\<rparr>"
    using assms(3) by (simp add: loop_body_Caption[OF assms(2)] sp flushed_def)
next
  have e: "process_lines d 0 (pre @ [l1]) init_state =
      loop_body d 0 l1 (process_lines d 0 pre init_state)"
    by (subst process_lines_append[where j = 0]) simp
  have st: "starts_segment d (process_lines d 0 (pre @ [l1]) init_state) n2 sp2"
    using assms(3) unfolding e by (simp add: starts_segment_def speaker_after_Caption[OF assms(1)])
  have b: "final_lines d ((pre @ [l1]) @ l2 # post) =
      final_lines d (pre @ [l1]) @ final_lines d (l2 # post)" for post
    by (rule final_lines_segment_start[OF assms(2) st])
  from b[of post] show "final_lines d (pre @ l1 # l2 # post) =
      final_lines d (pre @ [l1]) @ final_lines d (l2 # post)"
    by simp
  have "final_lines d [l2] = [caption_line n2 sp2 (t2 # map caption_text [])]"
    by (rule final_lines_merge_run[OF assms(2)]) simp
  with b[of "[]"] show "final_lines d (pre @ [l1, l2]) =
           final_lines d (pre @ [l1]) @
           [''['' @ seconds_to_timestamp (Some n2) @ ''] '' @ sp2 @ '': '' @ t2]"
    by (simp add: caption_line_def)
qed

theorem speaker_change_starts_segment_witness:
  "final_lines 30 [''[00:09] A: one'', ''[00:09] a: two''] = [''[00:00:09] A: one'', ''[00:00:09] a: two''] \<and>
   final_lines 30 [''[00:09] A: one'', ''[00:03] B: two'', ''[00:04] B: three'']
     = [''[00:00:09] A: one'', ''[00:00:03] B: two three'']"
proof -
  have a: "classify ''[00:09] A: one'' = Caption 9 ''A'' ''one''"
    by code_simp
  have b: "classify ''[00:09] a: two'' = Caption 9 ''a'' ''two''"
    by code_simp
  have c: "classify ''[00:03] B: two'' = Caption 3 ''B'' ''two''"
    by code_simp
  have ab: "''A'' \<noteq> ''a''" and ac: "''A'' \<noteq> ''B''"
    by simp_all
  have s: "seconds_to_timestamp (Some 9) = ''00:00:09''"
    by code_simp
  have one: "final_lines 30 ([] @ [''[00:09] A: one'']) = [''[00:00:09] A: one'']"
    by code_simp
  have post: "final_lines 30 [''[00:03] B: two'', ''[00:04] B: three''] = [''[00:00:03] B: two three'']"
    by code_simp
  note T1 = speaker_change_starts_segment[OF a b ab, where pre = "[]" and d = 30,
      THEN conjunct2, THEN conjunct2]
  note T2 = speaker_change_starts_segment[OF a c ac, where pre = "[]" and d = 30
      and post = "[''[00:04] B: three'']", THEN conjunct2, THEN conjunct1]
  show ?thesis
    using T1 T2 unfolding one s post by simp
qed



text \<open>
  C2, as the code has it. The line \<open>[bad] A: broken\<close> does not match the caption pattern,
  so it is passed through: it stands in the output unchanged, as a line of its own at its
  position, and the valid caption after it is written as usual. No line at all is dropped
  for its timestamp.
\<close>

theorem unusable_timestamp_line_passed_through:
  "classify ''[bad] A: broken'' = Passthrough ''[bad] A: broken'' \<and>
   (\<forall>d pre post.
      final_lines d (pre @ ''[bad] A: broken'' # post)
        = final_lines d pre @ [''[bad] A: broken''] @ final_lines d post) \<and>
   process_transcript ''[bad] A: broken\<newline>[00:01] A: ok'' 30
     = ''[bad] A: broken\<newline>[00:00:01] A: ok'' \<and>
   (\<forall>raw. classify raw \<noteq> Dropped)"
proof (intro conjI allI)
  show c: "classify ''[bad] A: broken'' = Passthrough ''[bad] A: broken''"
    by code_simp
  show "final_lines d (pre @ ''[bad] A: broken'' # post)
        = final_lines d pre @ [''[bad] A: broken''] @ final_lines d post" for d pre post
    by (rule final_lines_Passthrough[OF c])
  show "process_transcript ''[bad] A: broken\<newline>[00:01] A: ok'' 30
     = ''[bad] A: broken\<newline>[00:00:01] A: ok''"
    by code_simp
  show "classify raw \<noteq> Dropped" for raw
    by (rule classify_not_Dropped)
qed

text \<open>
  The line is not dropped: for \<open>[bad] A: broken\<close> followed by \<open>[00:01] A: ok\<close> the output
  has both lines, and is not the caption line alone.
\<close>

theorem unusable_timestamp_line_dropped_counterexample:
  "process_transcript ''[bad] A: broken\<newline>[00:01] A: ok'' 30
     = ''[bad] A: broken\<newline>[00:00:01] A: ok'' \<and>
   process_transcript ''[bad] A: broken\<newline>[00:01] A: ok'' 30 \<noteq> ''[00:00:01] A: ok'' \<and>
   ''[bad] A: broken'' \<in> set (final_lines 30 [''[bad] A: broken'', ''[00:01] A: ok''])"
  by code_simp

section \<open>Concrete transcripts\<close>

text \<open>
  C1. For the input \<open>[00:00] A: Hi\<close>, \<open>[00:02] A: there\<close>, \<open>[00:05] B: Hey\<close> (three lines)
  and a window of 30 seconds, \<open>process_transcript\<close> returns exactly the two lines
  \<open>[00:00:00] A: Hi there\<close> and \<open>[00:00:05] B: Hey\<close>: the two captions of A merge under the
  normalised timestamp of the first, and the caption of B is a line of its own.
\<close>

theorem scenario_merge_then_speaker_change:
  "process_transcript ''[00:00] A: Hi\<newline>[00:02] A: there\<newline>[00:05] B: Hey'' 30
     = ''[00:00:00] A: Hi there\<newline>[00:00:05] B: Hey''"
  by code_simp

end
